theory Spec2Isabelle
  imports Main "HOL-Library.Multiset" "HOL-Library.Log_Nat"
begin

section \<open>JavaScript values used by \<open>src/index.js\<close>\<close>

text \<open>
  A thrown JavaScript error: the \<open>status\<close> is \<open>error.response.status\<close> when the error
  carries an HTTP response (an axios rejection), and \<open>None\<close> when \<open>error.response\<close> is
  undefined (a plain \<open>new Error(message)\<close>, a network failure).
\<close>

datatype js_error = JsError (status: "nat option") (message: string)

text \<open>The two terminal failures \<open>generateImage\<close> throws itself (lines 106 and 111).\<close>

definition NoCredentials :: js_error where
  "NoCredentials = JsError None ''No API key available.''"

definition MaxRetriesExceeded :: js_error where
  "MaxRetriesExceeded = JsError None ''Max retries reached. Unable to generate image.''"

text \<open>The error thrown at line 134 when a 2xx response carries no image data.\<close>

definition NoImageReturned :: js_error where
  "NoImageReturned = JsError None ''No image returned from Gemini.''"

text \<open>
  A string-valued expression that may be \<open>undefined\<close>. It is truthy when it is a
  non-empty string.
\<close>

definition truthy :: "string option \<Rightarrow> bool" where
  "truthy v = (case v of None \<Rightarrow> False | Some s \<Rightarrow> s \<noteq> [])"

text \<open>
  \<open>x || d\<close> for a numeric argument that may be \<open>undefined\<close> (\<open>None\<close>): the default
  replaces \<open>undefined\<close> and \<open>0\<close>.
\<close>

definition js_or :: "int option \<Rightarrow> int \<Rightarrow> int" where
  "js_or v d = (case v of None \<Rightarrow> d | Some n \<Rightarrow> if n = 0 then d else n)"

text \<open>
  An array index as JavaScript computes it: \<open>n % 0\<close> is \<open>NaN\<close>, \<open>NaN + 1\<close> is \<open>NaN\<close>,
  and reading an array at \<open>NaN\<close> or past its end gives \<open>undefined\<close>.
\<close>

datatype js_index = Index nat | NaN

fun js_succ :: "js_index \<Rightarrow> js_index" where
  "js_succ (Index n) = Index (n + 1)"
| "js_succ NaN = NaN"

fun js_mod :: "js_index \<Rightarrow> nat \<Rightarrow> js_index" where
  "js_mod (Index n) k = (if k = 0 then NaN else Index (n mod k))"
| "js_mod NaN k = NaN"

fun js_at :: "'a list \<Rightarrow> js_index \<Rightarrow> 'a option" where
  "js_at xs (Index n) = (if n < length xs then Some (xs ! n) else None)"
| "js_at xs NaN = None"

section \<open>The credential pool (lines 78 to 96)\<close>

text \<open>
  The loop of lines 79 to 84 reads \<open>GEMINI_API_KEY_1\<close>, \<open>GEMINI_API_KEY_2\<close>, ... and stops
  at the first variable that is unset or empty. The environment is given as the list
  of the values of these variables, in order.
\<close>

fun load_keys :: "string option list \<Rightarrow> string list" where
  "load_keys [] = []"
| "load_keys (v # vs) = (if truthy v then the v # load_keys vs else [])"

text \<open>
  The module's global variables. \<open>currentApiKeyName\<close> only feeds console output, which
  is not modelled, and is left out.
\<close>

record key_pool =
  geminiApiKeys :: "string list"
  currentApiKeyIndex :: js_index
  geminiApiKey :: "string option"

text \<open>Lines 86 and 87: the pool as the module leaves it when it is loaded.\<close>

definition init_pool :: "string list \<Rightarrow> key_pool" where
  "init_pool ks =
     \<lparr>geminiApiKeys = ks, currentApiKeyIndex = Index 0, geminiApiKey = js_at ks (Index 0)\<rparr>"

text \<open>
  \<open>getNextApiKey\<close> (lines 91 to 96). The key it returns is the new \<open>geminiApiKey\<close>; no
  caller uses the returned value, so the model returns the updated globals.
\<close>

definition getNextApiKey :: "key_pool \<Rightarrow> key_pool" where
  "getNextApiKey p =
     (let i = js_mod (js_succ (currentApiKeyIndex p)) (length (geminiApiKeys p))
      in p\<lparr>currentApiKeyIndex := i, geminiApiKey := js_at (geminiApiKeys p) i\<rparr>)"

text \<open>
  The states the pool is in while the server runs with at least one credential: every
  credential is a non-empty string, the index is in range, and \<open>geminiApiKey\<close> is the
  credential at the index.
\<close>

definition pool_ok :: "key_pool \<Rightarrow> bool" where
  "pool_ok p =
     (list_all (\<lambda>k. k \<noteq> []) (geminiApiKeys p) \<and>
      (case currentApiKeyIndex p of
         NaN \<Rightarrow> False
       | Index i \<Rightarrow> i < length (geminiApiKeys p) \<and> geminiApiKey p = Some (geminiApiKeys p ! i)))"

section \<open>The retry controller \<open>generateImage\<close> (lines 99 to 155)\<close>

text \<open>
  What one \<open>axios.post\<close> does: it resolves with a response, of which the code reads
  \<open>response.data?.predictions?.[0]?.bytesBase64Encoded\<close> (a string, or \<open>undefined\<close>), or
  it rejects with an error.
\<close>

datatype http_result = Resolved "string option" | Rejected js_error

text \<open>
  The remote service: the outcome of a request, given how many requests were sent
  before it, the credential in the URL and the prompt in the payload.
\<close>

type_synonym client = "nat \<Rightarrow> string \<Rightarrow> string \<Rightarrow> http_result"

text \<open>\<open>Buffer.from(base64Data, "base64")\<close>: the bytes encoded by the payload.\<close>

datatype buffer = Buffer_from_base64 string

text \<open>
  The effects of a call, in the order they happen: a request sent with a credential
  and a prompt, a \<open>setTimeout\<close> wait in milliseconds, a call of \<open>getNextApiKey\<close>.
\<close>

datatype event = Post string string | Delay nat | Rotate

record world =
  pool :: key_pool
  trace :: "event list"

fun is_Post :: "event \<Rightarrow> bool" where
  "is_Post (Post k p) = True"
| "is_Post e = False"

definition posts :: "event list \<Rightarrow> nat" where
  "posts tr = length (filter is_Post tr)"

definition rotations :: "event list \<Rightarrow> nat" where
  "rotations tr = length (filter (\<lambda>e. e = Rotate) tr)"

definition emit :: "event list \<Rightarrow> world \<Rightarrow> world" where
  "emit es w = w\<lparr>trace := trace w @ es\<rparr>"

definition rotate_key :: "world \<Rightarrow> world" where
  "rotate_key w = w\<lparr>pool := getNextApiKey (pool w), trace := trace w @ [Rotate]\<rparr>"

text \<open>Line 100 and line 101: the attempt counter and the budget after defaulting.\<close>

definition retries_of :: "int option \<Rightarrow> int" where
  "retries_of retries = js_or retries 0"

definition maxRetries_of :: "int option \<Rightarrow> world \<Rightarrow> int" where
  "maxRetries_of maxRetries w = js_or maxRetries (int (length (geminiApiKeys (pool w))) * 2)"

text \<open>The request of lines 126 to 130, sent with the current credential.\<close>

definition request :: "client \<Rightarrow> string \<Rightarrow> world \<Rightarrow> http_result" where
  "request axios prompt w = axios (posts (trace w)) (the (geminiApiKey (pool w))) prompt"

text \<open>The world once that request has been sent.\<close>

definition sent :: "string \<Rightarrow> world \<Rightarrow> world" where
  "sent prompt w = emit [Post (the (geminiApiKey (pool w))) prompt] w"

text \<open>
  \<open>generateImage(prompt, retries, maxRetries)\<close>. An argument that is left out is
  \<open>None\<close>. The result is the error thrown (\<open>Inl\<close>) or the buffer returned (\<open>Inr\<close>),
  with the world the call leaves. A response without image data throws inside the
  \<open>try\<close> block, so the \<open>catch\<close> block receives that error, finds no \<open>response\<close> on it and
  throws it again (lines 133, 134 and 150 to 152).
\<close>

function generateImage ::
  "client \<Rightarrow> string \<Rightarrow> int option \<Rightarrow> int option \<Rightarrow> world \<Rightarrow> (js_error + buffer) \<times> world"
where
  "generateImage axios prompt retries maxRetries w =
     (if \<not> truthy (geminiApiKey (pool w)) then (Inl NoCredentials, w)
      else if retries_of retries \<ge> maxRetries_of maxRetries w then (Inl MaxRetriesExceeded, w)
      else
        (case request axios prompt w of
           Resolved base64Data \<Rightarrow>
             if \<not> truthy base64Data then (Inl NoImageReturned, sent prompt w)
             else (Inr (Buffer_from_base64 (the base64Data)), sent prompt w)
         | Rejected error \<Rightarrow>
             if status error = Some 429 then
               generateImage axios prompt (Some (retries_of retries + 1))
                 (Some (maxRetries_of maxRetries w))
                 (emit [Delay 1000] (rotate_key (sent prompt w)))
             else if status error = Some 503 then
               generateImage axios prompt (Some (retries_of retries + 1))
                 (Some (maxRetries_of maxRetries w))
                 (rotate_key (emit [Delay 5000] (sent prompt w)))
             else (Inl error, sent prompt w)))"
  by pat_completeness auto
termination
  by (relation "measure (\<lambda>(axios, prompt, retries, maxRetries, w).
        nat (maxRetries_of maxRetries w - retries_of retries))")
    (auto simp: maxRetries_of_def retries_of_def js_or_def emit_def rotate_key_def sent_def
      getNextApiKey_def Let_def split: option.splits)

declare generateImage.simps [simp del]

text \<open>A service that answers every request with HTTP 429.\<close>

definition always_429 :: client where
  "always_429 c k p = Rejected (JsError (Some 429) ''Too Many Requests'')"

text \<open>A pool of three credentials, as the module loads it.\<close>

definition three_keys :: key_pool where
  "three_keys = init_pool [''k1'', ''k2'', ''k3'']"

text \<open>The world a request handler starts from: the pool, and no effect yet.\<close>

definition world0 :: "key_pool \<Rightarrow> world" where
  "world0 p = \<lparr>pool = p, trace = []\<rparr>"

text \<open>The outcome \<open>RateLimited\<close>: the request is rejected with HTTP 429.\<close>

definition rate_limited :: "http_result \<Rightarrow> bool" where
  "rate_limited r = (case r of Resolved d \<Rightarrow> False | Rejected e \<Rightarrow> status e = Some 429)"

text \<open>
  What the 429 branch (lines 141 to 143) does to the world after the request: it
  calls \<open>getNextApiKey\<close>, then waits one second.
\<close>

definition step_429 :: "string \<Rightarrow> world \<Rightarrow> world" where
  "step_429 prompt w = emit [Delay 1000] (rotate_key (sent prompt w))"

text \<open>
  The outcome of one attempt, as the branches of \<open>generateImage\<close> tell them apart
  (lines 132 to 153).
\<close>

datatype outcome = Success buffer | Empty | RateLimited | Unavailable | OtherFailure js_error

definition outcome_of :: "http_result \<Rightarrow> outcome" where
  "outcome_of r =
     (case r of
        Resolved base64Data \<Rightarrow>
          if \<not> truthy base64Data then Empty else Success (Buffer_from_base64 (the base64Data))
      | Rejected error \<Rightarrow>
          if status error = Some 429 then RateLimited
          else if status error = Some 503 then Unavailable
          else OtherFailure error)"

text \<open>
  Three services: two rejections with HTTP 429 and then an image; a 2xx response
  without image data and then an image; an HTTP 500 and then an image.
\<close>

definition two_429_then_image :: client where
  "two_429_then_image c k p =
     (if c < 2 then Rejected (JsError (Some 429) ''Too Many Requests'')
      else Resolved (Some ''aGVsbG8=''))"

definition empty_then_image :: client where
  "empty_then_image c k p = (if c = 0 then Resolved None else Resolved (Some ''aGVsbG8=''))"

definition error_500_then_image :: client where
  "error_500_then_image c k p =
     (if c = 0 then Rejected (JsError (Some 500) ''Internal Server Error'')
      else Resolved (Some ''aGVsbG8=''))"

section \<open>JavaScript numbers in \<open>applyWatermark\<close>\<close>

text \<open>
  JavaScript numbers are IEEE 754 double-precision values. A finite double is modelled
  by the rational it denotes, and an arithmetic operation by the exact operation
  followed by rounding to the nearest double, ties to the even significand.
  \<open>binade x\<close> is the exponent \<open>e\<close> with \<open>2\<^sup>e \<le> x < 2\<^sup>e\<^sup>+\<^sup>1\<close> of a positive \<open>x\<close>, and
  \<open>to_double x\<close> keeps 53 significant bits of \<open>x\<close>. Overflow and subnormal numbers are
  not modelled: the image dimensions of the theorems below keep every value far
  from both.
\<close>

definition binade :: "rat \<Rightarrow> int" where
  "binade x =
     (if 1 \<le> x then int (floorlog 2 (nat \<lfloor>x\<rfloor>)) - 1
      else - int (floorlog 2 (nat (\<lceil>1 / x\<rceil> - 1))))"

definition round_even :: "rat \<Rightarrow> int" where
  "round_even m =
     (let f = \<lfloor>m\<rfloor>; d = m - of_int f
      in if d < 1 / 2 then f else if 1 / 2 < d then f + 1 else if even f then f else f + 1)"

definition to_double :: "rat \<Rightarrow> rat" where
  "to_double x =
     (if x = 0 then 0
      else if x < 0 then
        - (of_int (round_even (- x / 2 powi (binade (- x) - 52))) * 2 powi (binade (- x) - 52))
      else of_int (round_even (x / 2 powi (binade x - 52))) * 2 powi (binade x - 52))"

text \<open>The operators \<open>*\<close> and \<open>/\<close> on doubles.\<close>

definition js_mul :: "rat \<Rightarrow> rat \<Rightarrow> rat" where
  "js_mul a b = to_double (a * b)"

definition js_div :: "rat \<Rightarrow> rat \<Rightarrow> rat" where
  "js_div a b = to_double (a / b)"

text \<open>
  \<open>Math.round\<close>: the nearest integer, a half rounding up. It is exact on every double.
\<close>

definition Math_round :: "rat \<Rightarrow> int" where
  "Math_round x = \<lfloor>x + 1 / 2\<rfloor>"

text \<open>A number exactly half-way between two integers, where \<open>Math.round\<close> rounds up.\<close>

definition half_way :: "rat \<Rightarrow> bool" where
  "half_way v = (of_int \<lfloor>v + 1 / 2\<rfloor> = v + 1 / 2)"

section \<open>The watermark \<open>applyWatermark\<close> (lines 158 to 191)\<close>

text \<open>
  What \<open>applyWatermark\<close> asks of the image library: the box the logo is resized to
  (lines 170 to 175) and the place it is composited at (lines 178 to 187). The pixels
  themselves are the library's work and are not modelled.
\<close>

record overlay =
  resize_width :: int
  resize_height :: int
  composite_top :: int
  composite_left :: int

text \<open>
  Lines 164 to 168, 177 and 183, from the width of the base image and the width and
  height of the logo as \<open>metadata()\<close> reports them. The literal \<open>0.4\<close> is the double
  nearest to \<open>2/5\<close>. \<open>Math.min\<close>, \<open>Math.max\<close> and the subtractions of line 183 work on
  integers, where doubles are exact. A logo of width 0, whose quotient JavaScript
  makes \<open>Infinity\<close> or \<open>NaN\<close>, is outside the model.
\<close>

definition applyWatermark :: "int \<Rightarrow> int \<Rightarrow> int \<Rightarrow> overlay" where
  "applyWatermark width logoWidth logoHeight =
     (let maxLogoWidth = 100;
          targetLogoWidth = min (Math_round (js_mul (of_int width) (to_double (2 / 5)))) maxLogoWidth;
          targetLogoHeight =
            Math_round (js_mul (js_div (of_int targetLogoWidth) (of_int logoWidth)) (of_int logoHeight));
          padding = 10
      in \<lparr>resize_width = targetLogoWidth, resize_height = targetLogoHeight,
          composite_top = padding, composite_left = max 0 (width - targetLogoWidth - padding)\<rparr>)"

section \<open>The gallery listing \<open>GET /api/gallery\<close> (lines 349 to 365)\<close>

text \<open>A document of the \<open>GalleryItem\<close> collection (lines 51 to 56).\<close>

record GalleryItem =
  item_id :: int
  username :: string
  inscription :: string
  imageUrl :: string

text \<open>The response: \<open>res.json({ total, items })\<close>, or status 500 with an error text.\<close>

datatype gallery_response = Json nat "GalleryItem list" | Status_500 string

text \<open>
  \<open>.sort({ id: -1 })\<close>: by \<open>id\<close>, largest first. Documents with equal \<open>id\<close> keep their
  stored order here; the database promises no order among them.
\<close>

definition sort_id_desc :: "GalleryItem list \<Rightarrow> GalleryItem list" where
  "sort_id_desc items = sort_key (\<lambda>x. - item_id x) items"

text \<open>
  The handler, from the value of \<open>parseInt(req.query.page)\<close> (\<open>None\<close> for \<open>NaN\<close>) and the
  stored documents. A negative \<open>skip\<close> is refused by the database, which the handler
  answers with status 500.
\<close>

definition get_gallery :: "int option \<Rightarrow> GalleryItem list \<Rightarrow> gallery_response" where
  "get_gallery parsed_page store =
     (let page = js_or parsed_page 1;
          limit = 10;
          skip = (page - 1) * limit;
          total = length store
      in if skip < 0 then Status_500 ''Failed to fetch gallery.''
         else Json total (take (nat limit) (drop (nat skip) (sort_id_desc store))))"

text \<open>Two stored documents of one user.\<close>

definition ann_1 :: GalleryItem where
  "ann_1 = \<lparr>item_id = 1, username = ''ann'', inscription = ''GM'', imageUrl = ''https://img/1.png''\<rparr>"

definition ann_2 :: GalleryItem where
  "ann_2 = \<lparr>item_id = 2, username = ''ann'', inscription = ''WAGMI'', imageUrl = ''https://img/2.png''\<rparr>"

section \<open>Rotation is cyclic\<close>

lemma length_keys_getNextApiKey [simp]:
  "geminiApiKeys (getNextApiKey p) = geminiApiKeys p"
  by (simp add: getNextApiKey_def Let_def)

lemma maxRetries_of_step [simp]:
  "maxRetries_of (Some (maxRetries_of m w)) (emit es (rotate_key (sent prompt w))) = maxRetries_of m w"
  "maxRetries_of (Some (maxRetries_of m w)) (rotate_key (emit es (sent prompt w))) = maxRetries_of m w"
  by (auto simp: maxRetries_of_def js_or_def emit_def rotate_key_def sent_def split: option.splits)

lemma retries_of_step [simp]: "retries_of (Some (retries_of r + 1)) = retries_of r + 1"
  by (simp add: retries_of_def js_or_def)

lemma load_keys_truthy: "list_all (\<lambda>k. k \<noteq> []) (load_keys env)"
  by (induction env) (auto simp: truthy_def split: option.splits)

lemma pool_ok_init: "ks \<noteq> [] \<Longrightarrow> list_all (\<lambda>k. k \<noteq> []) ks \<Longrightarrow> pool_ok (init_pool ks)"
  by (simp add: pool_ok_def init_pool_def)

lemma pool_ok_getNextApiKey: "pool_ok p \<Longrightarrow> pool_ok (getNextApiKey p)"
  by (auto simp: pool_ok_def getNextApiKey_def Let_def list_all_iff split: js_index.splits)

lemma keys_funpow [simp]: "geminiApiKeys ((getNextApiKey ^^ n) p) = geminiApiKeys p"
  by (induction n) simp_all

lemma more_funpow [simp]: "key_pool.more ((getNextApiKey ^^ n) p) = key_pool.more p"
  by (induction n) (simp_all add: getNextApiKey_def Let_def)

lemma pool_ok_funpow: "pool_ok p \<Longrightarrow> pool_ok ((getNextApiKey ^^ n) p)"
  by (induction n) (simp_all add: pool_ok_getNextApiKey)

text \<open>Every pool the server reaches from a non-empty set of credentials is such a state.\<close>

lemma pool_ok_reachable:
  "load_keys env \<noteq> [] \<Longrightarrow> pool_ok ((getNextApiKey ^^ n) (init_pool (load_keys env)))"
  by (intro pool_ok_funpow pool_ok_init load_keys_truthy)

lemma index_getNextApiKey:
  "currentApiKeyIndex q = Index j \<Longrightarrow> geminiApiKeys q \<noteq> [] \<Longrightarrow>
   currentApiKeyIndex (getNextApiKey q) = Index (Suc j mod length (geminiApiKeys q))"
  by (simp add: getNextApiKey_def Let_def)

lemma index_funpow:
  assumes "currentApiKeyIndex p = Index i" "geminiApiKeys p \<noteq> []" "i < length (geminiApiKeys p)"
  shows "currentApiKeyIndex ((getNextApiKey ^^ n) p) = Index ((i + n) mod length (geminiApiKeys p))"
proof (induction n)
  case 0
  then show ?case using assms by simp
next
  case (Suc n)
  have "currentApiKeyIndex (getNextApiKey ((getNextApiKey ^^ n) p))
      = Index (Suc ((i + n) mod length (geminiApiKeys p)) mod length (geminiApiKeys p))"
    using index_getNextApiKey [OF Suc.IH] assms(2) by simp
  then show ?case by (simp add: mod_Suc_eq)
qed

lemma pool_ok_eqI:
  assumes "pool_ok p" "pool_ok q" "geminiApiKeys p = geminiApiKeys q"
    "currentApiKeyIndex p = currentApiKeyIndex q" "key_pool.more p = key_pool.more q"
  shows "p = q"
  using assms by (cases p, cases q) (auto simp: pool_ok_def split: js_index.splits)

lemma pool_ok_three_keys: "pool_ok three_keys"
  by (simp add: pool_ok_def three_keys_def init_pool_def)

lemma length_three_keys: "length (geminiApiKeys three_keys) = 3"
  by (simp add: three_keys_def init_pool_def)

text \<open>
  Claim C5. In a pool of \<open>k \<ge> 1\<close> credentials whose index is in range, \<open>k\<close> calls of
  \<open>getNextApiKey\<close> give back the very pool they started from (same index, same current
  credential), and after any number of calls the index is still below \<open>k\<close>.
\<close>

theorem advance_cyclic:
  assumes "pool_ok p"
  shows "(getNextApiKey ^^ length (geminiApiKeys p)) p = p
     \<and> (\<forall>n. \<exists>i < length (geminiApiKeys p). currentApiKeyIndex ((getNextApiKey ^^ n) p) = Index i)"
proof -
  obtain i where i: "currentApiKeyIndex p = Index i" "i < length (geminiApiKeys p)"
    using assms by (auto simp: pool_ok_def split: js_index.splits)
  then have ne: "geminiApiKeys p \<noteq> []" by auto
  have idx: "currentApiKeyIndex ((getNextApiKey ^^ n) p) = Index ((i + n) mod length (geminiApiKeys p))" for n
    using index_funpow [OF i(1) ne i(2)] .
  have "currentApiKeyIndex ((getNextApiKey ^^ length (geminiApiKeys p)) p) = currentApiKeyIndex p"
    using idx [of "length (geminiApiKeys p)"] i by simp
  then have "(getNextApiKey ^^ length (geminiApiKeys p)) p = p"
    by (intro pool_ok_eqI pool_ok_funpow assms) simp_all
  moreover have "\<exists>j < length (geminiApiKeys p). currentApiKeyIndex ((getNextApiKey ^^ n) p) = Index j" for n
    using idx [of n] ne by simp
  ultimately show ?thesis by blast
qed

theorem advance_cyclic_witness:
  "pool_ok three_keys \<and>
   (getNextApiKey ^^ 3) three_keys = three_keys \<and>
   (\<forall>n. \<exists>i < 3. currentApiKeyIndex ((getNextApiKey ^^ n) three_keys) = Index i)"
  using advance_cyclic [OF pool_ok_three_keys] pool_ok_three_keys
  unfolding length_three_keys by blast

section \<open>The retry controller\<close>

text \<open>
  Claim C3. With no credential loaded (\<open>geminiApiKeys\<close> is empty, so \<open>geminiApiKey\<close>,
  read from it, is \<open>undefined\<close>), \<open>generateImage\<close> throws "No API key available."
  whatever its arguments, and leaves the world as it was: no request is sent, nothing
  is waited for and the pool is not advanced.
\<close>

theorem empty_pool_NoCredentials:
  assumes "geminiApiKeys (pool w) = []"
    and "geminiApiKey (pool w) = js_at (geminiApiKeys (pool w)) (currentApiKeyIndex (pool w))"
  shows "generateImage axios prompt retries maxRetries w = (Inl NoCredentials, w)"
  using assms
  by (cases "currentApiKeyIndex (pool w)") (simp_all add: truthy_def generateImage.simps)

theorem empty_pool_NoCredentials_witness:
  "geminiApiKeys (init_pool (load_keys [])) = [] \<and>
   generateImage always_429 ''a cat'' None None \<lparr>pool = init_pool (load_keys []), trace = []\<rparr>
     = (Inl NoCredentials, \<lparr>pool = init_pool (load_keys []), trace = []\<rparr>) \<and>
   posts (trace (snd (generateImage always_429 ''a cat'' None None
     \<lparr>pool = init_pool (load_keys []), trace = []\<rparr>))) = 0"
  using empty_pool_NoCredentials
    [of "\<lparr>pool = init_pool (load_keys []), trace = []\<rparr>" always_429 "''a cat''" None None]
  by (simp add: init_pool_def posts_def)

subsection \<open>One call of \<open>generateImage\<close>, branch by branch\<close>

lemma generateImage_cong:
  assumes "retries_of r = retries_of r'" "maxRetries_of m w = maxRetries_of m' w"
  shows "generateImage axios prompt r m w = generateImage axios prompt r' m' w"
  unfolding generateImage.simps [of axios prompt r m w] generateImage.simps [of axios prompt r' m' w]
  by (simp only: assms)

lemma retries_of_idem [simp]: "retries_of (Some (retries_of r)) = retries_of r"
  by (simp add: retries_of_def js_or_def split: option.splits)

lemma maxRetries_of_idem [simp]: "maxRetries_of (Some (maxRetries_of m w)) w = maxRetries_of m w"
  by (simp add: maxRetries_of_def js_or_def split: option.splits)

lemma rate_limited_iff: "rate_limited r \<longleftrightarrow> outcome_of r = RateLimited"
  by (simp add: rate_limited_def outcome_of_def split: http_result.splits)

lemma pool_ok_truthy: "pool_ok p \<Longrightarrow> truthy (geminiApiKey p)"
  by (auto simp: pool_ok_def truthy_def list_all_length split: js_index.splits)

lemma generateImage_429:
  assumes "truthy (geminiApiKey (pool w))" "retries_of r < maxRetries_of m w"
    "rate_limited (request axios prompt w)"
  shows "generateImage axios prompt r m w =
    generateImage axios prompt (Some (retries_of r + 1)) (Some (maxRetries_of m w)) (step_429 prompt w)"
  using assms
  unfolding generateImage.simps [of axios prompt r m w]
  by (auto simp: rate_limited_def step_429_def split: http_result.splits)


lemma generateImage_image:
  assumes "truthy (geminiApiKey (pool w))" "retries_of r < maxRetries_of m w"
    "request axios prompt w = Resolved (Some b)" "b \<noteq> []"
  shows "generateImage axios prompt r m w = (Inr (Buffer_from_base64 b), sent prompt w)"
  unfolding generateImage.simps [of axios prompt r m w] using assms by (simp add: truthy_def)

subsection \<open>The world after a run of rate-limited attempts\<close>

lemma pool_sent [simp]: "pool (sent prompt w) = pool w"
  by (simp add: sent_def emit_def)

lemma posts_sent [simp]: "posts (trace (sent prompt w)) = Suc (posts (trace w))"
  by (simp add: sent_def emit_def posts_def)

lemma rotations_sent [simp]: "rotations (trace (sent prompt w)) = rotations (trace w)"
  by (simp add: sent_def emit_def rotations_def)

lemma pool_step_429 [simp]: "pool (step_429 prompt w) = getNextApiKey (pool w)"
  by (simp add: step_429_def emit_def rotate_key_def sent_def)

lemma posts_step_429 [simp]: "posts (trace (step_429 prompt w)) = Suc (posts (trace w))"
  by (simp add: step_429_def emit_def rotate_key_def sent_def posts_def)

lemma rotations_step_429 [simp]: "rotations (trace (step_429 prompt w)) = Suc (rotations (trace w))"
  by (simp add: step_429_def emit_def rotate_key_def sent_def rotations_def)

lemma pool_steps_429 [simp]: "pool ((step_429 prompt ^^ n) w) = (getNextApiKey ^^ n) (pool w)"
  by (induction n) simp_all

lemma posts_steps_429 [simp]: "posts (trace ((step_429 prompt ^^ n) w)) = posts (trace w) + n"
  by (induction n) simp_all

lemma rotations_steps_429 [simp]:
  "rotations (trace ((step_429 prompt ^^ n) w)) = rotations (trace w) + n"
  by (induction n) simp_all

lemma maxRetries_of_step_429 [simp]: "maxRetries_of m (step_429 prompt w) = maxRetries_of m w"
  by (simp add: maxRetries_of_def)

lemma pool_ok_steps_429: "pool_ok (pool w) \<Longrightarrow> pool_ok (pool ((step_429 prompt ^^ n) w))"
  by (simp add: pool_ok_funpow)

text \<open>
  \<open>n\<close> rate-limited attempts in a row, within the budget, bring the call to attempt
  \<open>n\<close> in the world that \<open>n\<close> passes through the 429 branch leave.
\<close>

lemma run_429:
  assumes "pool_ok (pool w)"
    and "\<forall>i<n. \<forall>k. rate_limited (axios (posts (trace w) + i) k prompt)"
    and "retries_of r + int n \<le> maxRetries_of m w"
  shows "generateImage axios prompt r m w =
    generateImage axios prompt (Some (retries_of r + int n)) (Some (maxRetries_of m w))
      ((step_429 prompt ^^ n) w)"
  using assms
proof (induction n arbitrary: w r m)
  case 0
  have "generateImage axios prompt r m w =
      generateImage axios prompt (Some (retries_of r)) (Some (maxRetries_of m w)) w"
    by (rule generateImage_cong) simp_all
  then show ?case by simp
next
  case (Suc n)
  let ?w = "step_429 prompt w"
  have first: "rate_limited (request axios prompt w)"
    using Suc.prems(2) by (auto simp: request_def dest: spec [of _ 0])
  have "generateImage axios prompt r m w =
      generateImage axios prompt (Some (retries_of r + 1)) (Some (maxRetries_of m w)) ?w"
    using Suc.prems first by (intro generateImage_429 pool_ok_truthy) simp_all
  also have "\<dots> = generateImage axios prompt (Some (retries_of (Some (retries_of r + 1)) + int n))
      (Some (maxRetries_of (Some (maxRetries_of m w)) ?w)) ((step_429 prompt ^^ n) ?w)"
  proof (rule Suc.IH)
    show "pool_ok (pool ?w)" using Suc.prems(1) by (simp add: pool_ok_getNextApiKey)
    show "\<forall>i<n. \<forall>k. rate_limited (axios (posts (trace ?w) + i) k prompt)"
      using Suc.prems(2) by (auto dest: spec [of _ "Suc _"])
    show "retries_of (Some (retries_of r + 1)) + int n \<le> maxRetries_of (Some (maxRetries_of m w)) ?w"
      using Suc.prems(3) by simp
  qed
  finally have "generateImage axios prompt r m w =
      generateImage axios prompt (Some (retries_of (Some (retries_of r + 1)) + int n))
        (Some (maxRetries_of (Some (maxRetries_of m w)) ?w)) ((step_429 prompt ^^ n) ?w)" .
  moreover have "retries_of (Some (retries_of r + 1)) + int n = retries_of r + int (Suc n)"
    by simp
  moreover have "maxRetries_of (Some (maxRetries_of m w)) ?w = maxRetries_of m w"
    by (simp add: step_429_def)
  moreover have "(step_429 prompt ^^ n) ?w = (step_429 prompt ^^ Suc n) w"
    by (simp add: funpow_swap1)
  ultimately show ?case by (simp only:)
qed



text \<open>
  Claim C4. With at least one credential and \<open>j\<close> below the budget, if the first \<open>j\<close>
  requests of the call are answered with HTTP 429 and the next one with an image
  payload, \<open>generateImage(prompt)\<close> returns the buffer decoded from that payload, the
  pool is the one \<open>j\<close> calls of \<open>getNextApiKey\<close> leave, \<open>getNextApiKey\<close> was called
  exactly \<open>j\<close> times, and \<open>j + 1\<close> requests were sent.
\<close>

theorem success_after_rate_limits:
  assumes ok: "pool_ok (pool w)"
    and budget: "int j < maxRetries_of maxRetries w"
    and limited: "\<forall>i<j. \<forall>k. rate_limited (axios (posts (trace w) + i) k prompt)"
    and image: "\<forall>k. axios (posts (trace w) + j) k prompt = Resolved (Some b)" "b \<noteq> []"
  shows "fst (generateImage axios prompt None maxRetries w) = Inr (Buffer_from_base64 b) \<and>
    pool (snd (generateImage axios prompt None maxRetries w)) = (getNextApiKey ^^ j) (pool w) \<and>
    rotations (trace (snd (generateImage axios prompt None maxRetries w))) = rotations (trace w) + j \<and>
    posts (trace (snd (generateImage axios prompt None maxRetries w))) = posts (trace w) + j + 1"
proof -
  let ?M = "maxRetries_of maxRetries w"
  let ?w = "(step_429 prompt ^^ j) w"
  have r0: "retries_of None = 0" by (simp add: retries_of_def js_or_def)
  have "generateImage axios prompt None maxRetries w =
      generateImage axios prompt (Some (retries_of None + int j)) (Some ?M) ?w"
    by (rule run_429) (use ok limited budget r0 in simp_all)
  also have "\<dots> = (Inr (Buffer_from_base64 b), sent prompt ?w)"
  proof (rule generateImage_image)
    show "truthy (geminiApiKey (pool ?w))"
      using ok by (intro pool_ok_truthy pool_ok_steps_429)
    have "maxRetries_of (Some ?M) ?w = ?M"
      using maxRetries_of_idem [of maxRetries w] by (simp add: maxRetries_of_def)
    then show "retries_of (Some (retries_of None + int j)) < maxRetries_of (Some ?M) ?w"
      using budget by (simp add: retries_of_def js_or_def)
    show "request axios prompt ?w = Resolved (Some b)"
      using image(1) by (simp add: request_def)
    show "b \<noteq> []" by fact
  qed
  finally show ?thesis by simp
qed

theorem success_after_rate_limits_witness:
  "pool_ok (pool (world0 three_keys)) \<and>
   fst (generateImage two_429_then_image ''a cat'' None None (world0 three_keys))
     = Inr (Buffer_from_base64 ''aGVsbG8='') \<and>
   rotations (trace (snd (generateImage two_429_then_image ''a cat'' None None (world0 three_keys)))) = 2 \<and>
   posts (trace (snd (generateImage two_429_then_image ''a cat'' None None (world0 three_keys)))) = 3 \<and>
   geminiApiKey (pool (snd (generateImage two_429_then_image ''a cat'' None None (world0 three_keys))))
     = Some ''k3''"
proof -
  have ok: "pool_ok (pool (world0 three_keys))"
    by (simp add: world0_def pool_ok_three_keys)
  have budget: "int 2 < maxRetries_of None (world0 three_keys)"
    by (simp add: maxRetries_of_def js_or_def world0_def length_three_keys)
  have limited: "\<forall>i<2. \<forall>k. rate_limited
      (two_429_then_image (posts (trace (world0 three_keys)) + i) k ''a cat'')"
    by (simp add: rate_limited_def two_429_then_image_def world0_def posts_def)
  have image: "\<forall>k. two_429_then_image (posts (trace (world0 three_keys)) + 2) k ''a cat''
      = Resolved (Some ''aGVsbG8='')"
    by (simp add: two_429_then_image_def world0_def posts_def)
  have key: "geminiApiKey ((getNextApiKey ^^ 2) (pool (world0 three_keys))) = Some ''k3''"
    by (simp add: world0_def three_keys_def init_pool_def getNextApiKey_def Let_def numeral_2_eq_2)
  have tr: "rotations (trace (world0 three_keys)) = 0" "posts (trace (world0 three_keys)) = 0"
    by (simp_all add: world0_def rotations_def posts_def)
  show ?thesis
    using success_after_rate_limits [where w = "world0 three_keys" and j = 2
        and axios = two_429_then_image and prompt = "''a cat''" and maxRetries = None
        and b = "''aGVsbG8=''", OF ok budget limited image] ok key tr
    by simp
qed

text \<open>
  Claim C1, as stated, fails. With three credentials and a budget of six attempts, a
  first response without image data, or a first HTTP 500, ends the call at once with
  that failure: one request was sent, \<open>getNextApiKey\<close> was not called, nothing was
  waited for, and the image the service would have returned next is never asked for.
\<close>

theorem empty_is_surfaced_counterexample:
  "generateImage empty_then_image ''a cat'' None None (world0 three_keys)
     = (Inl NoImageReturned, \<lparr>pool = three_keys, trace = [Post ''k1'' ''a cat'']\<rparr>) \<and>
   generateImage error_500_then_image ''a cat'' None None (world0 three_keys)
     = (Inl (JsError (Some 500) ''Internal Server Error''),
        \<lparr>pool = three_keys, trace = [Post ''k1'' ''a cat'']\<rparr>) \<and>
   retries_of None < maxRetries_of None (world0 three_keys)"
  by (simp add: generateImage.simps world0_def three_keys_def init_pool_def truthy_def
      retries_of_def maxRetries_of_def js_or_def request_def posts_def sent_def emit_def
      empty_then_image_def error_500_then_image_def)

text \<open>
  Claim C1, amended. At an attempt below the budget, when the response carries no
  image data \<open>generateImage\<close> throws "No image returned from Gemini.", and when the
  request fails with anything but HTTP 429 or 503 it throws that error: in both cases
  at once, the request being the only effect (the pool is not advanced, nothing is
  waited for, no further attempt is made). Only HTTP 429 (advance, wait one second)
  and HTTP 503 (wait five seconds, advance) are absorbed: the call goes on as the
  next attempt.
\<close>

theorem attempt_by_outcome:
  assumes "truthy (geminiApiKey (pool w))"
    and "retries_of retries < maxRetries_of maxRetries w"
  shows "(outcome_of (request axios prompt w) = Empty \<longrightarrow>
      generateImage axios prompt retries maxRetries w = (Inl NoImageReturned, sent prompt w)) \<and>
    (outcome_of (request axios prompt w) = OtherFailure e \<longrightarrow>
      generateImage axios prompt retries maxRetries w = (Inl e, sent prompt w)) \<and>
    (outcome_of (request axios prompt w) = RateLimited \<longrightarrow>
      generateImage axios prompt retries maxRetries w =
        generateImage axios prompt (Some (retries_of retries + 1)) (Some (maxRetries_of maxRetries w))
          (emit [Delay 1000] (rotate_key (sent prompt w)))) \<and>
    (outcome_of (request axios prompt w) = Unavailable \<longrightarrow>
      generateImage axios prompt retries maxRetries w =
        generateImage axios prompt (Some (retries_of retries + 1)) (Some (maxRetries_of maxRetries w))
          (rotate_key (emit [Delay 5000] (sent prompt w)))) \<and>
    pool (sent prompt w) = pool w \<and>
    trace (sent prompt w) = trace w @ [Post (the (geminiApiKey (pool w))) prompt]"
  using assms
  unfolding generateImage.simps [of axios prompt retries maxRetries w]
  by (auto simp: outcome_of_def sent_def emit_def split: http_result.splits if_splits)

theorem attempt_by_outcome_witness:
  "truthy (geminiApiKey (pool (world0 three_keys))) \<and>
   retries_of None < maxRetries_of None (world0 three_keys) \<and>
   outcome_of (request empty_then_image ''a cat'' (world0 three_keys)) = Empty \<and>
   generateImage empty_then_image ''a cat'' None None (world0 three_keys)
     = (Inl NoImageReturned, sent ''a cat'' (world0 three_keys)) \<and>
   outcome_of (request error_500_then_image ''a cat'' (world0 three_keys))
     = OtherFailure (JsError (Some 500) ''Internal Server Error'') \<and>
   generateImage error_500_then_image ''a cat'' None None (world0 three_keys)
     = (Inl (JsError (Some 500) ''Internal Server Error''), sent ''a cat'' (world0 three_keys))"
proof -
  have a: "truthy (geminiApiKey (pool (world0 three_keys)))"
    by (simp add: world0_def three_keys_def init_pool_def truthy_def)
  have b: "retries_of None < maxRetries_of None (world0 three_keys)"
    by (simp add: retries_of_def maxRetries_of_def js_or_def world0_def length_three_keys)
  have c: "outcome_of (request empty_then_image ''a cat'' (world0 three_keys)) = Empty"
    by (simp add: outcome_of_def request_def empty_then_image_def world0_def posts_def truthy_def)
  have d: "outcome_of (request error_500_then_image ''a cat'' (world0 three_keys))
     = OtherFailure (JsError (Some 500) ''Internal Server Error'')"
    by (simp add: outcome_of_def request_def error_500_then_image_def world0_def posts_def)
  show ?thesis
    using attempt_by_outcome [OF a b, of empty_then_image "''a cat''"]
      attempt_by_outcome [OF a b, of error_500_then_image "''a cat''"
        "JsError (Some 500) ''Internal Server Error''"]
      a b c d
    by simp
qed

subsection \<open>Requests are only ever added\<close>

lemma posts_mono:
  "posts (trace w) \<le> posts (trace (snd (generateImage axios prompt r m w)))"
proof (induction axios prompt r m w rule: generateImage.induct)
  case (1 axios prompt retries maxRetries w)
  show ?case
    unfolding generateImage.simps [of axios prompt retries maxRetries w]
    using 1 
    by (auto simp: step_429_def[symmetric] split: http_result.splits 
         simp: emit_def rotate_key_def sent_def posts_def)
qed


lemma maxRetries_of_falsy: "maxRetries_of (Some 0) w = maxRetries_of None w"
  by (simp add: maxRetries_of_def js_or_def)

lemma first_request_sent:
  assumes "truthy (geminiApiKey (pool w))" "retries_of r < maxRetries_of m w"
  shows "posts (trace w) < posts (trace (snd (generateImage axios prompt r m w)))"
proof -
  have "Suc (posts (trace w)) \<le> posts (trace (snd (generateImage axios prompt r m w)))"
    unfolding generateImage.simps [of axios prompt r m w]
    using assms
      posts_mono [of "emit [Delay 1000] (rotate_key (sent prompt w))" axios prompt
        "Some (retries_of r + 1)" "Some (maxRetries_of m w)"]
      posts_mono [of "rotate_key (emit [Delay 5000] (sent prompt w))" axios prompt
        "Some (retries_of r + 1)" "Some (maxRetries_of m w)"]
    by (auto simp: emit_def rotate_key_def sent_def posts_def split: http_result.splits)
  then show ?thesis by simp
qed

text \<open>
  Claim C10. A budget argument of \<open>0\<close> gives the same call as no budget argument,
  whatever the other arguments and the world are; and with at least one credential
  and an attempt counter that is left out or \<open>0\<close>, such a call sends at least one
  request.
\<close>

theorem zero_budget_is_default:
  "generateImage axios prompt retries (Some 0) w = generateImage axios prompt retries None w \<and>
   (pool_ok (pool w) \<longrightarrow> retries_of retries = 0 \<longrightarrow>
      posts (trace w) < posts (trace (snd (generateImage axios prompt retries (Some 0) w))))"
proof (intro conjI impI)
  show "generateImage axios prompt retries (Some 0) w = generateImage axios prompt retries None w"
    by (rule generateImage_cong) (simp_all add: maxRetries_of_falsy)
next
  assume ok: "pool_ok (pool w)" and r: "retries_of retries = 0"
  have "geminiApiKeys (pool w) \<noteq> []"
    using ok by (auto simp: pool_ok_def split: js_index.splits)
  then have "retries_of retries < maxRetries_of (Some 0) w"
    by (simp add: r maxRetries_of_def js_or_def)
  then show "posts (trace w) < posts (trace (snd (generateImage axios prompt retries (Some 0) w)))"
    using ok by (intro first_request_sent pool_ok_truthy)
qed

theorem zero_budget_is_default_witness:
  "pool_ok (pool (world0 three_keys)) \<and> retries_of None = 0 \<and>
   generateImage always_429 ''a cat'' None (Some 0) (world0 three_keys)
     = generateImage always_429 ''a cat'' None None (world0 three_keys) \<and>
   posts (trace (world0 three_keys))
     < posts (trace (snd (generateImage always_429 ''a cat'' None (Some 0) (world0 three_keys))))"
proof -
  have ok: "pool_ok (pool (world0 three_keys))"
    by (simp add: world0_def pool_ok_three_keys)
  have r: "retries_of None = 0"
    by (simp add: retries_of_def js_or_def)
  show ?thesis
    using zero_budget_is_default [of always_429 "''a cat''" None "world0 three_keys"] ok r
    by blast
qed

section \<open>Rounding to a double\<close>

lemma binade_lower:
  assumes "0 < x"
  shows "2 powi (binade x) \<le> x"
proof (cases "1 \<le> x")
  case True
  define n where "n = nat \<lfloor>x\<rfloor>"
  have n: "0 < n" using True by (simp add: n_def)
  have "2 ^ (floorlog 2 n - 1) \<le> n" using floorlog_bounds [of n 2] n by simp
  then have "(2::rat) ^ (floorlog 2 n - 1) \<le> of_nat n"
    by (metis of_nat_le_iff of_nat_numeral of_nat_power)
  also have "(of_nat n :: rat) = of_int \<lfloor>x\<rfloor>" using True by (simp add: n_def)
  also have "\<dots> \<le> x" by simp
  finally have "(2::rat) ^ (floorlog 2 n - 1) \<le> x" .
  moreover have "floorlog 2 n \<noteq> 0" using n by (simp add: floorlog_eq_zero_iff)
  then have "binade x = int (floorlog 2 n - 1)" using True by (simp add: binade_def n_def)
  ultimately show ?thesis by simp
next
  case False
  define n where "n = nat (\<lceil>1 / x\<rceil> - 1)"
  have "1 < 1 / x" using False assms by simp
  then have "2 \<le> \<lceil>1 / x\<rceil>" by (simp add: le_ceiling_iff) 
  then have n: "0 < n" by (simp add: n_def)
  have "n < 2 ^ floorlog 2 n" using floorlog_bounds [of n 2] n by simp
  then have "Suc n \<le> 2 ^ floorlog 2 n" by simp
  then have "(of_nat (Suc n) :: rat) \<le> 2 ^ floorlog 2 n"
    by (metis of_nat_le_iff of_nat_numeral of_nat_power)
  moreover have "int (Suc n) = \<lceil>1 / x\<rceil>"
    using \<open>2 \<le> \<lceil>1 / x\<rceil>\<close> unfolding n_def by arith
  then have "(of_nat (Suc n) :: rat) = of_int \<lceil>1 / x\<rceil>"
    by (metis of_int_of_nat_eq)
  ultimately have "(of_int \<lceil>1 / x\<rceil> :: rat) \<le> 2 ^ floorlog 2 n"
    by (simp only:)
  with le_of_int_ceiling [of "1 / x"] have "1 / x \<le> 2 ^ floorlog 2 n"
    by (rule order_trans)
  then have "1 / 2 ^ floorlog 2 n \<le> x"
    using assms by (simp add: field_simps)
  moreover have "binade x = - int (floorlog 2 n)" using False by (simp add: binade_def n_def)
  ultimately show ?thesis by (simp add: power_int_minus_divide)
qed

lemma binade_upper:
  assumes "0 < x"
  shows "x < 2 powi (binade x + 1)"
proof (cases "1 \<le> x")
  case True
  define n where "n = nat \<lfloor>x\<rfloor>"
  have n: "0 < n" using True by (simp add: n_def)
  have "n < 2 ^ floorlog 2 n" using floorlog_bounds [of n 2] n by simp
  then have "Suc n \<le> 2 ^ floorlog 2 n" by simp
  then have "(of_nat (Suc n) :: rat) \<le> 2 ^ floorlog 2 n"
    by (metis of_nat_le_iff of_nat_numeral of_nat_power)
  moreover have "int (Suc n) = \<lfloor>x\<rfloor> + 1" using True unfolding n_def by simp
  then have "(of_nat (Suc n) :: rat) = of_int (\<lfloor>x\<rfloor> + 1)"
    by (metis of_int_of_nat_eq)
  moreover have "x < of_int (\<lfloor>x\<rfloor> + 1)" by linarith
  ultimately have "x < 2 ^ floorlog 2 n" by linarith
  moreover have "floorlog 2 n \<noteq> 0" using n by (simp add: floorlog_eq_zero_iff)
  then have "binade x + 1 = int (floorlog 2 n)" using True by (simp add: binade_def n_def)
  ultimately show ?thesis by simp
next
  case False
  define n where "n = nat (\<lceil>1 / x\<rceil> - 1)"
  have "1 < 1 / x" using False assms by simp
  then have c: "2 \<le> \<lceil>1 / x\<rceil>" by (simp add: le_ceiling_iff)
  then have n: "0 < n" by (simp add: n_def)
  have L: "floorlog 2 n \<noteq> 0" using n by (simp add: floorlog_eq_zero_iff)
  have "2 ^ (floorlog 2 n - 1) \<le> n" using floorlog_bounds [of n 2] n by simp
  then have "(2::rat) ^ (floorlog 2 n - 1) \<le> of_nat n"
    by (metis of_nat_le_iff of_nat_numeral of_nat_power)
  moreover have "int n = \<lceil>1 / x\<rceil> - 1" using c unfolding n_def by arith
  then have "(of_nat n :: rat) = of_int (\<lceil>1 / x\<rceil> - 1)"
    by (metis of_int_of_nat_eq)
  moreover have "of_int (\<lceil>1 / x\<rceil> - 1) < 1 / x" by linarith
  ultimately have "(2::rat) ^ (floorlog 2 n - 1) < 1 / x" by linarith
  then have "x < 1 / 2 ^ (floorlog 2 n - 1)"
    using assms by (simp add: field_simps)
  moreover have "binade x + 1 = - int (floorlog 2 n - 1)"
    using False L by (simp add: binade_def n_def)
  ultimately show ?thesis by (simp add: power_int_minus_divide)
qed

lemma round_even_error: "\<bar>of_int (round_even m) - m\<bar> \<le> 1 / 2"
proof -
  have "of_int \<lfloor>m\<rfloor> \<le> m" "m < of_int \<lfloor>m\<rfloor> + 1" by linarith+
  then show ?thesis
    by (auto simp: round_even_def Let_def)
qed

lemma to_double_error:
  assumes "0 < x"
  shows "\<bar>to_double x - x\<bar> \<le> x / 2 ^ 53"
proof -
  define u :: rat where "u = 2 powi (binade x - 52)"
  have u: "0 < u" by (simp add: u_def)
  have "u = 2 powi (binade x) / 2 ^ 52"
    by (simp add: u_def power_int_diff)
  then have ux: "u \<le> x / 2 ^ 52"
    using binade_lower [OF assms] by (simp add: divide_right_mono)
  have "to_double x - x = (of_int (round_even (x / u)) - x / u) * u"
    using assms u by (simp add: to_double_def u_def field_simps)
  then have "\<bar>to_double x - x\<bar> = \<bar>of_int (round_even (x / u)) - x / u\<bar> * u"
    using u by (simp add: abs_mult)
  also have "\<dots> \<le> 1 / 2 * u"
    using round_even_error [of "x / u"] u by (intro mult_right_mono) simp_all
  also have "\<dots> \<le> 1 / 2 * (x / 2 ^ 52)"
    using ux by simp
  finally show ?thesis by simp
qed


lemma round_even_mono_bounds:
  assumes "of_int a \<le> m" "m \<le> of_int b"
  shows "a \<le> round_even m" "round_even m \<le> b"
proof -
  have f: "a \<le> \<lfloor>m\<rfloor>" using assms(1) by (simp add: le_floor_iff)
  then show "a \<le> round_even m" by (auto simp: round_even_def Let_def)
  have le: "\<lfloor>m\<rfloor> \<le> b" using assms(2) by (simp add: floor_le_iff)
  show "round_even m \<le> b"
  proof (cases "\<lfloor>m\<rfloor> = b")
    case True
    then have "m - of_int \<lfloor>m\<rfloor> = 0" using assms(2) by linarith
    then show ?thesis using True by (simp add: round_even_def Let_def)
  next
    case False
    then have "\<lfloor>m\<rfloor> + 1 \<le> b" using le by simp
    moreover have "round_even m \<le> \<lfloor>m\<rfloor> + 1" by (simp add: round_even_def Let_def)
    ultimately show ?thesis by simp
  qed
qed

text \<open>
  The result of rounding a positive number is a significand of 53 bits times a power of
  two, as a double is.
\<close>

lemma to_double_significand:
  assumes "0 < x"
  shows "to_double x = of_int (round_even (x / 2 powi (binade x - 52))) * 2 powi (binade x - 52)"
    and "2 ^ 52 \<le> round_even (x / 2 powi (binade x - 52))"
    and "round_even (x / 2 powi (binade x - 52)) \<le> 2 ^ 53"
proof -
  define u :: rat where "u = 2 powi (binade x - 52)"
  have u: "0 < u" by (simp add: u_def)
  show "to_double x = of_int (round_even (x / 2 powi (binade x - 52))) * 2 powi (binade x - 52)"
    using assms by (simp add: to_double_def)
  have "2 powi (binade x) = u * 2 ^ 52" "2 powi (binade x + 1) = u * 2 ^ 53"
    by (simp_all add: u_def power_int_diff power_int_add)
  then have "u * 2 ^ 52 \<le> x" "x < u * 2 ^ 53"
    using binade_lower [OF assms] binade_upper [OF assms] by simp_all
  then have "2 ^ 52 \<le> x / u" "x / u \<le> 2 ^ 53"
    using u by (simp_all add: field_simps)
  then have "of_int (2 ^ 52) \<le> x / u" "x / u \<le> of_int (2 ^ 53)" by simp_all
  then show "2 ^ 52 \<le> round_even (x / 2 powi (binade x - 52))"
    "round_even (x / 2 powi (binade x - 52)) \<le> 2 ^ 53"
    unfolding u_def [symmetric] by (rule round_even_mono_bounds)+
qed


lemma to_double_0 [simp]: "to_double 0 = 0"
  by (simp add: to_double_def)

lemma to_double_pos: assumes "0 < x" shows "0 < to_double x"
proof -
  have "x / 2 ^ 53 < x" using assms by (simp add: field_simps)
  then show ?thesis using to_double_error [OF assms] by linarith
qed

lemma literal_0_4: "\<bar>to_double (2 / 5) - 2 / 5\<bar> \<le> 1 / 2 ^ 53"
proof -
  have "\<bar>to_double (2 / 5) - 2 / 5\<bar> \<le> (2 / 5) / 2 ^ 53"
    by (rule to_double_error) simp
  then show ?thesis by simp
qed

lemma scaled_width_error:
  assumes "0 \<le> W"
  shows "\<bar>js_mul (of_int W) (to_double (2 / 5)) - of_int W * 2 / 5\<bar> \<le> of_int W / 2 ^ 52"
proof (cases "W = 0")
  case True
  then show ?thesis by (simp add: js_mul_def)
next
  case False
  define w :: rat where "w = of_int W"
  define c where "c = to_double (2 / 5)"
  have w: "0 < w" using assms False by (simp add: w_def)
  have c: "\<bar>c - 2 / 5\<bar> \<le> 1 / 2 ^ 53" unfolding c_def by (rule literal_0_4)
  have k: "(1 :: rat) / 2 ^ 53 \<le> 1 / 10" by simp
  have c1: "0 < c" "c \<le> 1" using c k by linarith+
  have "0 < w * c" using w c1 by simp
  then have "\<bar>to_double (w * c) - w * c\<bar> \<le> w * c / 2 ^ 53"
    by (rule to_double_error)
  also have "\<dots> \<le> w * 1 / 2 ^ 53"
    using w c1 by (intro divide_right_mono mult_left_mono) simp_all
  finally have e1: "\<bar>to_double (w * c) - w * c\<bar> \<le> w / 2 ^ 53" by simp
  have "w * c - w * 2 / 5 = w * (c - 2 / 5)"
    by (simp add: right_diff_distrib)
  then have "\<bar>w * c - w * 2 / 5\<bar> = w * \<bar>c - 2 / 5\<bar>"
    using w by (simp only: abs_mult abs_of_pos)
  also have "\<dots> \<le> w * (1 / 2 ^ 53)"
    using w c by (intro mult_left_mono) simp_all
  finally have e2: "\<bar>w * c - w * 2 / 5\<bar> \<le> w / 2 ^ 53" by simp
  have "\<bar>to_double (w * c) - w * 2 / 5\<bar> \<le> w / 2 ^ 53 + w / 2 ^ 53"
    using e1 e2 by linarith
  then show ?thesis by (simp add: js_mul_def w_def c_def)
qed

lemma Math_round_two_fifths: "Math_round (of_int W * 2 / 5) = (4 * W + 5) div 10"
proof -
  have "of_int W * 2 / 5 + 1 / 2 = (of_int (4 * W + 5) :: rat) / of_int 10"
    by simp
  then show ?thesis
    unfolding Math_round_def by (simp only: floor_divide_of_int_eq)
qed

lemma targetLogoWidth_exact:
  assumes "0 \<le> W"
  shows "min (Math_round (js_mul (of_int W) (to_double (2 / 5)))) 100
       = min (Math_round (of_int W * 2 / 5)) 100"
proof -
  define y where "y = js_mul (of_int W) (to_double (2 / 5))"
  define q where "q = (4 * W + 5) div 10"
  define r where "r = (4 * W + 5) mod 10"
  have err: "\<bar>y - of_int W * 2 / 5\<bar> \<le> of_int W / 2 ^ 52"
    unfolding y_def by (rule scaled_width_error [OF assms])
  have r: "1 \<le> r" "r \<le> 9" unfolding r_def by presburger+
  have "4 * W + 5 = 10 * q + r" by (simp add: q_def r_def)
  then have "(of_int (4 * W + 5) :: rat) = of_int (10 * q + r)" by simp
  then have ex: "(of_int W :: rat) * 2 / 5 + 1 / 2 = of_int q + of_int r / 10"
    by (simp add: field_simps)
  have rr: "(1 :: rat) \<le> of_int r" "(of_int r :: rat) \<le> 9"
    using r by simp_all
  show ?thesis
  proof (cases "W \<le> 1000")
    case True
    then have "(of_int W :: rat) \<le> 1000" by simp
    then have "(of_int W :: rat) / 2 ^ 52 \<le> 1000 / 2 ^ 52"
      by (intro divide_right_mono) simp_all
    then have small: "\<bar>y - of_int W * 2 / 5\<bar> \<le> 1 / 20"
      using err by simp
    have "of_int q \<le> y + 1 / 2" "y + 1 / 2 < of_int q + 1"
      using small ex rr by linarith+
    then have "Math_round y = q"
      unfolding Math_round_def by (intro floor_unique)
    then show ?thesis by (simp add: y_def Math_round_two_fifths q_def)
  next
    case False
    then have big: "(1000 :: rat) \<le> of_int W" by simp
    have "(of_int W :: rat) / 2 ^ 52 \<le> of_int W / 10"
      using big by (intro divide_left_mono) simp_all
    then have "of_int W * 2 / 5 - of_int W / 10 \<le> y"
      using err by linarith
    then have "(of_int 100 :: rat) \<le> y + 1 / 2" using big by simp
    then have "100 \<le> Math_round y"
      unfolding Math_round_def by (simp only: le_floor_iff)
    moreover have "100 \<le> (4 * W + 5) div 10" using False by presburger
    ultimately show ?thesis by (simp add: y_def Math_round_two_fifths)
  qed
qed


text \<open>
  The double product of line 167 is closer to the exact value than any half-integer
  that is not the exact value itself can be.
\<close>

lemma scaled_height_close:
  assumes t: "0 \<le> t" "t \<le> 100" and lw: "1 \<le> lw" and lh: "0 \<le> lh" "lh < 2 ^ 31"
  shows "\<bar>js_mul (js_div (of_int t) (of_int lw)) (of_int lh) - of_int t * of_int lh / of_int lw\<bar>
      < 1 / (2 * of_int lw)"
proof (cases "t = 0 \<or> lh = 0")
  case True
  then show ?thesis using lw by (auto simp: js_mul_def js_div_def)
next
  case False
  define l :: rat where "l = of_int lw"
  define a :: rat where "a = of_int t / l"
  define h :: rat where "h = of_int lh"
  define y where "y = to_double a"
  have l: "0 < l" using lw by (simp add: l_def)
  have t': "(0::rat) < of_int t" "(of_int t :: rat) \<le> 100" using False t by simp_all
  have a: "0 < a" using t' l by (simp add: a_def)
  have "0 < lh" "lh \<le> 2 ^ 31" using False lh by simp_all
  then have "(0::rat) < of_int lh" "(of_int lh :: rat) \<le> of_int (2 ^ 31)"
    by (simp_all only: of_int_0_less_iff of_int_le_iff)
  then have h: "0 < h" "h \<le> 2 ^ 31" by (simp_all add: h_def)
  have e1: "\<bar>y - a\<bar> \<le> a / 2 ^ 53"
    unfolding y_def by (rule to_double_error [OF a])
  have y: "0 < y" unfolding y_def by (rule to_double_pos [OF a])
  have "a / 2 ^ 53 \<le> a" using a by (simp add: field_simps)
  then have y2: "y \<le> 2 * a" using e1 by linarith
  define E where "E = a * h / 2 ^ 53"
  have "0 < y * h" using y h by simp
  then have "\<bar>to_double (y * h) - y * h\<bar> \<le> y * h / 2 ^ 53"
    by (rule to_double_error)
  also have "\<dots> \<le> 2 * a * h / 2 ^ 53"
    using y2 h by (intro divide_right_mono mult_right_mono) simp_all
  finally have e2: "\<bar>to_double (y * h) - y * h\<bar> \<le> 2 * E" by (simp add: E_def mult.assoc)
  have "y * h - a * h = (y - a) * h" by (simp add: left_diff_distrib)
  then have "\<bar>y * h - a * h\<bar> = \<bar>y - a\<bar> * h"
    using h by (simp only: abs_mult abs_of_pos)
  also have "\<dots> \<le> a / 2 ^ 53 * h"
    using e1 h by (intro mult_right_mono) simp_all
  finally have e3: "\<bar>y * h - a * h\<bar> \<le> E" by (simp add: E_def)
  have close: "\<bar>to_double (y * h) - a * h\<bar> \<le> 3 * E"
    using e2 e3 by linarith
  have th: "of_int t * h \<le> 100 * 2 ^ 31"
    using t' h by (intro mult_mono) simp_all
  have "3 * E = (3 * (of_int t * h) / 2 ^ 53) / l"
    by (simp add: E_def a_def)
  also have "\<dots> < (1 / 2) / l"
  proof (rule divide_strict_right_mono)
    have "3 * (of_int t * h) / 2 ^ 53 \<le> 3 * (100 * 2 ^ 31) / 2 ^ 53"
      using th by (intro divide_right_mono mult_left_mono) simp_all
    also have "\<dots> < 1 / 2" by simp
    finally show "3 * (of_int t * h) / 2 ^ 53 < 1 / 2" .
    show "0 < l" by fact
  qed
  finally have "3 * E < 1 / (2 * l)" by simp
  then have "\<bar>to_double (y * h) - a * h\<bar> < 1 / (2 * l)"
    using close by linarith
  then show ?thesis by (simp add: js_mul_def js_div_def y_def a_def h_def l_def)
qed

text \<open>
  Rounding down a number that is close to a fraction \<open>N / k\<close>: the result is the one of
  the fraction, unless the fraction is an integer and the number lies below it.
\<close>

lemma Math_round_perturbed:
  fixes x y :: rat and N k :: int
  assumes k: "0 < k"
    and x: "x * of_int k = of_int N"
    and close: "\<bar>y - x\<bar> < 1 / of_int k"
  shows "of_int \<lfloor>x\<rfloor> \<noteq> x \<Longrightarrow> \<lfloor>y\<rfloor> = \<lfloor>x\<rfloor>"
    and "of_int \<lfloor>x\<rfloor> = x \<Longrightarrow> x \<le> y \<Longrightarrow> \<lfloor>y\<rfloor> = \<lfloor>x\<rfloor>"
    and "of_int \<lfloor>x\<rfloor> = x \<Longrightarrow> y < x \<Longrightarrow> \<lfloor>y\<rfloor> = \<lfloor>x\<rfloor> - 1"
proof -
  define K :: rat where "K = of_int k"
  have K: "1 \<le> K" using k by (simp add: K_def)
  have c: "\<bar>y - x\<bar> < 1 / K" using close by (simp add: K_def)
  have "1 / K \<le> 1" using K by simp
  then have c1: "\<bar>y - x\<bar> < 1" using c by linarith
  {
    assume ne: "of_int \<lfloor>x\<rfloor> \<noteq> x"
    define q where "q = \<lfloor>x\<rfloor>"
    have lo: "of_int q < x" and hi: "x < of_int q + 1"
      using ne unfolding q_def by linarith+
    have "(x - of_int q) * K = of_int (N - q * k)"
      using x by (simp add: K_def algebra_simps)
    moreover have "0 < (x - of_int q) * K" using lo K by simp
    ultimately have "(0::rat) < of_int (N - q * k)" by simp
    then have "0 < N - q * k" by (simp only: of_int_0_less_iff)
    then have "1 \<le> N - q * k" by linarith
    then have "(1::rat) \<le> of_int (N - q * k)" by (simp only: of_int_1_le_iff)
    then have "1 \<le> (x - of_int q) * K"
      using \<open>(x - of_int q) * K = of_int (N - q * k)\<close> by simp
    then have g1: "1 / K \<le> x - of_int q" using K by (simp add: field_simps)
    have "(of_int q + 1 - x) * K = of_int (q * k + k - N)"
      using x by (simp add: K_def algebra_simps)
    moreover have "0 < (of_int q + 1 - x) * K" using hi K by simp
    ultimately have "(0::rat) < of_int (q * k + k - N)" by simp
    then have "0 < q * k + k - N" by (simp only: of_int_0_less_iff)
    then have "1 \<le> q * k + k - N" by linarith
    then have "(1::rat) \<le> of_int (q * k + k - N)" by (simp only: of_int_1_le_iff)
    then have "1 \<le> (of_int q + 1 - x) * K"
      using \<open>(of_int q + 1 - x) * K = of_int (q * k + k - N)\<close> by simp
    then have g2: "1 / K \<le> of_int q + 1 - x" using K by (simp add: field_simps)
    have "of_int q \<le> y" "y < of_int q + 1" using c g1 g2 by linarith+
    then have "\<lfloor>y\<rfloor> = q" by (rule floor_unique)
    then show "\<lfloor>y\<rfloor> = \<lfloor>x\<rfloor>" by (simp add: q_def)
  }
  {
    assume "of_int \<lfloor>x\<rfloor> = x" "x \<le> y"
    then have "of_int \<lfloor>x\<rfloor> \<le> y" "y < of_int \<lfloor>x\<rfloor> + 1" using c1 by linarith+
    then show "\<lfloor>y\<rfloor> = \<lfloor>x\<rfloor>" by (rule floor_unique)
  }
  {
    assume tie: "of_int \<lfloor>x\<rfloor> = x" "y < x"
    have "(of_int (\<lfloor>x\<rfloor> - 1) :: rat) = of_int \<lfloor>x\<rfloor> - 1" by (simp only: of_int_diff of_int_1)
    then have "of_int (\<lfloor>x\<rfloor> - 1) \<le> y" "y < of_int (\<lfloor>x\<rfloor> - 1) + 1"
      using tie c1 by linarith+
    then show "\<lfloor>y\<rfloor> = \<lfloor>x\<rfloor> - 1" by (rule floor_unique)
  }
qed


lemma literal_0_4_value: "to_double (2 / 5) = 3602879701896397 / 2 ^ 53"
  by code_simp

section \<open>The watermark\<close>

text \<open>
  Claim C6, as stated, fails. For a base image 1024 pixels wide and a logo of
  232 by 145 pixels, the logo width is 100 and \<open>round(100 \<times> 145 / 232)\<close> is 63, the
  quotient being exactly 62.5; \<open>applyWatermark\<close> divides first, the quotient
  \<open>100 / 232\<close> is rounded to a double, the product falls just below 62.5, and the
  logo height is 62.
\<close>

theorem logo_height_counterexample:
  "resize_width (applyWatermark 1024 232 145) = 100 \<and>
   Math_round (100 * 145 / 232) = 63 \<and>
   resize_height (applyWatermark 1024 232 145) = 62"
  by code_simp

text \<open>
  Claim C6, amended. For a base image of width \<open>W \<ge> 0\<close> and a logo of width at least 1
  and height below \<open>2\<^sup>3\<^sup>1\<close>, the logo width \<open>t\<close> is \<open>min(round(W \<times> 0.4), 100)\<close>, and
  the logo height is \<open>round(t \<times> logoH / logoW)\<close> whenever \<open>t \<times> logoH / logoW\<close> is not
  exactly half-way between two integers. When it is, the height is that rounded
  value if the double product \<open>(t / logoW) \<times> logoH\<close> of line 167 has not fallen below the
  half, and one less if it has. A base 1000 wide gives the logo width 100 and a base
  100 wide gives 40.
\<close>

theorem watermark_logo_size:
  assumes "0 \<le> W" "1 \<le> lw" "0 \<le> lh" "lh < 2 ^ 31"
    and t: "t = resize_width (applyWatermark W lw lh)"
    and v: "v = of_int t * of_int lh / of_int lw"
    and y: "y = js_mul (js_div (of_int t) (of_int lw)) (of_int lh)"
  shows "t = min (Math_round (of_int W * 2 / 5)) 100 \<and>
    (\<not> half_way v \<longrightarrow> resize_height (applyWatermark W lw lh) = Math_round v) \<and>
    (half_way v \<and> v \<le> y \<longrightarrow> resize_height (applyWatermark W lw lh) = Math_round v) \<and>
    (half_way v \<and> y < v \<longrightarrow> resize_height (applyWatermark W lw lh) = Math_round v - 1)"
proof -
  have width: "t = min (Math_round (of_int W * 2 / 5)) 100"
    unfolding t using targetLogoWidth_exact [OF assms(1)]
    by (simp add: applyWatermark_def Let_def)
  have "0 \<le> (4 * W + 5) div 10" using assms(1) by presburger
  then have t_range: "0 \<le> t" "t \<le> 100"
    by (simp_all add: width Math_round_two_fifths)
  have height: "resize_height (applyWatermark W lw lh) = \<lfloor>y + 1 / 2\<rfloor>"
    by (simp add: t y applyWatermark_def Let_def Math_round_def)
  have k: "0 < 2 * lw" using assms(2) by simp
  have "of_int lw \<noteq> (0::rat)" using assms(2) by simp
  then have x: "(v + 1 / 2) * of_int (2 * lw) = of_int (2 * t * lh + lw)"
    by (simp add: v field_simps)
  have "\<bar>y - v\<bar> < 1 / (2 * of_int lw)"
    unfolding y v by (rule scaled_height_close [OF t_range assms(2-4)])
  then have close: "\<bar>(y + 1 / 2) - (v + 1 / 2)\<bar> < 1 / of_int (2 * lw)"
    by simp
  note r = Math_round_perturbed [OF k x close]
  have "\<not> half_way v \<Longrightarrow> \<lfloor>y + 1 / 2\<rfloor> = \<lfloor>v + 1 / 2\<rfloor>"
    using r(1) by (simp add: half_way_def)
  moreover have "half_way v \<Longrightarrow> v \<le> y \<Longrightarrow> \<lfloor>y + 1 / 2\<rfloor> = \<lfloor>v + 1 / 2\<rfloor>"
    using r(2) by (simp add: half_way_def)
  moreover have "half_way v \<Longrightarrow> y < v \<Longrightarrow> \<lfloor>y + 1 / 2\<rfloor> = \<lfloor>v + 1 / 2\<rfloor> - 1"
    using r(3) by (simp add: half_way_def)
  ultimately show ?thesis
    using width by (simp add: height Math_round_def)
qed

theorem watermark_logo_size_witness:
  "resize_width (applyWatermark 1000 200 100) = 100 \<and>
   resize_width (applyWatermark 100 200 100) = 40 \<and>
   \<not> half_way (40 * 100 / 200) \<and> resize_height (applyWatermark 100 200 100) = 20 \<and>
   \<not> half_way (100 * 200 / 300) \<and> resize_height (applyWatermark 1024 300 200) = 67 \<and>
   half_way (100 * 1 / 200) \<and> 100 * 1 / 200 \<le> js_mul (js_div 100 200) 1 \<and>
   resize_height (applyWatermark 1000 200 1) = 1 \<and>
   half_way (100 * 145 / 232) \<and> js_mul (js_div 100 232) 145 < 100 * 145 / 232 \<and>
   resize_height (applyWatermark 1024 232 145) = 62"
proof -
  have w: "resize_width (applyWatermark 1000 200 100) = 100"
    "resize_width (applyWatermark 100 200 100) = 40"
    "resize_width (applyWatermark 1024 300 200) = 100"
    "resize_width (applyWatermark 1000 200 1) = 100"
    "resize_width (applyWatermark 1024 232 145) = 100"
    by code_simp+
  have h: "\<not> half_way (40 * 100 / 200)" "\<not> half_way (100 * 200 / 300)"
    "half_way (100 * 1 / 200)" "(100::rat) * 1 / 200 \<le> js_mul (js_div 100 200) 1"
    "half_way (100 * 145 / 232)" "js_mul (js_div 100 232) 145 < 100 * 145 / 232"
    by code_simp+
  have m: "Math_round (40 * 100 / 200) = 20" "Math_round (100 * 200 / 300) = 67"
    "Math_round (100 * 1 / 200) = 1" "Math_round (100 * 145 / 232) = 63"
    by code_simp+
  have a: "resize_height (applyWatermark 100 200 100) = 20"
    using watermark_logo_size [of 100 200 100 40 "40 * 100 / 200" "js_mul (js_div 40 200) 100"]
      w h(1) m(1) by simp
  have b: "resize_height (applyWatermark 1024 300 200) = 67"
    using watermark_logo_size [of 1024 300 200 100 "100 * 200 / 300" "js_mul (js_div 100 300) 200"]
      w h(2) m(2) by simp
  have c: "resize_height (applyWatermark 1000 200 1) = 1"
    using watermark_logo_size [of 1000 200 1 100 "100 * 1 / 200" "js_mul (js_div 100 200) 1"]
      w h(3,4) m(3) by simp
  have d: "resize_height (applyWatermark 1024 232 145) = 62"
    using watermark_logo_size [of 1024 232 145 100 "100 * 145 / 232" "js_mul (js_div 100 232) 145"]
      w h(5,6) m(4) by simp
  show ?thesis using w h a b c d by simp
qed

text \<open>
  Claim C7. The logo is composited at \<open>top = 10\<close> and
  \<open>left = max(0, W - width - 10)\<close>, where \<open>width\<close> is the logo width: when the base
  is at least \<open>width + 10\<close> wide, which every base at least 16 pixels wide is, the
  right edge of the logo is exactly 10 pixels from the right edge of the base; when it
  is narrower, \<open>left\<close> is 0.
\<close>

theorem watermark_logo_position:
  "composite_top (applyWatermark W lw lh) = 10 \<and>
   composite_left (applyWatermark W lw lh) = max 0 (W - resize_width (applyWatermark W lw lh) - 10) \<and>
   (resize_width (applyWatermark W lw lh) + 10 \<le> W \<longrightarrow>
      composite_left (applyWatermark W lw lh) + resize_width (applyWatermark W lw lh) + 10 = W) \<and>
   (W < resize_width (applyWatermark W lw lh) + 10 \<longrightarrow>
      composite_left (applyWatermark W lw lh) = 0) \<and>
   (16 \<le> W \<longrightarrow> resize_width (applyWatermark W lw lh) + 10 \<le> W)"
proof -
  have "resize_width (applyWatermark W lw lh) + 10 \<le> W" if "16 \<le> W"
  proof -
    have "resize_width (applyWatermark W lw lh) = min ((4 * W + 5) div 10) 100"
      using targetLogoWidth_exact [of W] that
      by (simp add: applyWatermark_def Let_def Math_round_two_fifths)
    moreover have "(4 * W + 5) div 10 + 10 \<le> W" using that by presburger
    ultimately show ?thesis by simp
  qed
  then show ?thesis by (simp add: applyWatermark_def Let_def)
qed

theorem watermark_logo_position_witness:
  "resize_width (applyWatermark 1024 232 145) + 10 \<le> 1024 \<and>
   composite_top (applyWatermark 1024 232 145) = 10 \<and>
   composite_left (applyWatermark 1024 232 145) = 914 \<and>
   composite_left (applyWatermark 1024 232 145) + resize_width (applyWatermark 1024 232 145) + 10 = 1024 \<and>
   12 < resize_width (applyWatermark 12 232 145) + 10 \<and>
   composite_left (applyWatermark 12 232 145) = 0"
proof -
  have a: "resize_width (applyWatermark 1024 232 145) = 100"
    by code_simp
  have b: "resize_width (applyWatermark 12 232 145) = 5"
    by code_simp
  show ?thesis
    using watermark_logo_position [of 1024 232 145] watermark_logo_position [of 12 232 145] a b
    by simp
qed


section \<open>The gallery listing\<close>

text \<open>
  Claim C9, as stated, fails. With two stored documents of the same username, page 1
  lists both and reports the total 2.
\<close>

theorem gallery_not_deduplicated_counterexample:
  "get_gallery (Some 1) [ann_1, ann_2] = Json 2 [ann_2, ann_1] \<and>
   map username [ann_2, ann_1] = [''ann'', ''ann'']"
  by (simp add: get_gallery_def js_or_def sort_id_desc_def ann_1_def ann_2_def)

lemma sorted_desc: "sorted_wrt (\<lambda>a b. item_id b \<le> item_id a) (sort_id_desc store)"
proof -
  have "sorted (map (\<lambda>x. - item_id x) (sort_id_desc store))"
    by (simp add: sort_id_desc_def)
  then show ?thesis by (simp add: sorted_map)
qed

lemma mset_take_drop: "mset (take n (drop k xs)) \<subseteq># mset xs"
  by (metis append_take_drop_id mset_append mset_subset_eq_add_left mset_subset_eq_add_right
      subset_mset.order_trans)

text \<open>
  Claim C9, amended. For a page number \<open>N \<ge> 1\<close> (a missing, unreadable or zero page
  counts as 1), the endpoint returns the documents \<open>10 (N - 1) + 1\<close> to \<open>10 N\<close> of all stored
  documents sorted by \<open>id\<close> descending, with no deduplication by username, together
  with the count of all stored documents.
\<close>

theorem gallery_page:
  assumes "1 \<le> js_or parsed_page 1"
  shows "get_gallery parsed_page store =
      Json (length store) (take 10 (drop (10 * nat (js_or parsed_page 1 - 1)) (sort_id_desc store))) \<and>
    sorted_wrt (\<lambda>a b. item_id b \<le> item_id a)
      (take 10 (drop (10 * nat (js_or parsed_page 1 - 1)) (sort_id_desc store))) \<and>
    mset (take 10 (drop (10 * nat (js_or parsed_page 1 - 1)) (sort_id_desc store))) \<subseteq># mset store"
proof -
  have "nat ((js_or parsed_page 1 - 1) * 10) = 10 * nat (js_or parsed_page 1 - 1)"
    using assms by (simp add: nat_mult_distrib)
  then have "get_gallery parsed_page store =
      Json (length store) (take 10 (drop (10 * nat (js_or parsed_page 1 - 1)) (sort_id_desc store)))"
    using assms by (simp add: get_gallery_def Let_def)
  moreover have "sorted_wrt (\<lambda>a b. item_id b \<le> item_id a)
      (take 10 (drop (10 * nat (js_or parsed_page 1 - 1)) (sort_id_desc store)))"
    using sorted_desc [of store] by (intro sorted_wrt_take sorted_wrt_drop)
  moreover have "mset (take 10 (drop (10 * nat (js_or parsed_page 1 - 1)) (sort_id_desc store)))
      \<subseteq># mset store"
    using mset_take_drop [of 10 _ "sort_id_desc store"] by (simp add: sort_id_desc_def)
  ultimately show ?thesis by blast
qed

theorem gallery_page_witness:
  "1 \<le> js_or None 1 \<and> get_gallery None [ann_1, ann_2] = Json 2 [ann_2, ann_1]"
proof -
  have a: "1 \<le> js_or None 1" by (simp add: js_or_def)
  have s: "sort_id_desc [ann_1, ann_2] = [ann_2, ann_1]"
    by (simp add: sort_id_desc_def ann_1_def ann_2_def)
  show ?thesis
    using gallery_page [OF a, of "[ann_1, ann_2]"] a by (simp add: s js_or_def)
qed

end
